theory Spec2Isabelle
  imports Complex_Main
begin

section \<open>The pagination web component (pagination-wc.js)\<close>

text \<open>
  The component is one JavaScript class, \<open>PaginationWebComponent\<close>. Its fields, the parts of
  its shadow DOM that it writes, and the events it has dispatched make up one record; each
  method is a function from a state to the state it leaves behind. The shadow DOM is the
  one that \<open>render\<close> builds in the constructor, so the buttons, the numbers container and
  the slot that the methods look up are there, and the branches for their absence
  (\<open>setupEventListeners\<close>, \<open>updateButtonStates\<close>) are not taken; the absent slot of
  \<open>initializePagination\<close> is kept as an input. Console output is left out, and so is
  whatever a listener of the dispatched event does.

  Numbers. JavaScript numbers are IEEE doubles. \<open>itemsPerPage\<close> (the result of
  \<open>parseInt\<close>) and \<open>totalPages\<close> (the result of \<open>Math.ceil\<close>) are integers and are of type
  \<open>int\<close>; \<open>currentPage\<close> can be set by \<open>goToPage\<close> to any number and is of type \<open>rat\<close>, as are
  the indices computed from it. The arithmetic here is exact, where the source rounds the
  result of each operation to a double. The two agree on integer page numbers (integers
  below \<open>2 ^ 53\<close>), and on the operands used below with the page number \<open>2.5\<close>, where
  \<open>1.5 * 3 = 4.5\<close> and \<open>4.5 + 3 = 7.5\<close> are doubles. They differ where a product is not a
  double: for \<open>currentPage = 2.6666666666666665\<close> and three items per page the source
  computes the start index \<open>5\<close>, and the exact product is not an integer. The claims
  settled below are therefore about integer page numbers and about the page number \<open>2.5\<close>;
  of any other number only that \<open>goToPage\<close> stores it (\<open>goToPage_sets_currentPage\<close>), which
  no start index enters.
  \<open>NaN\<close> occurs only as the result of \<open>parseInt\<close>, where it is \<open>None\<close>. No execution
  stores \<open>0\<close> in \<open>itemsPerPage\<close> (see \<open>itemsPerPage_never_zero\<close>), so the division in
  \<open>calculateTotalPages\<close> never divides by zero.
\<close>

subsection \<open>Data\<close>

datatype error = TypeError

text \<open>The result of a call: it returned, or it threw after changing the state so far.\<close>

datatype 'a outcome = Done 'a | Thrown error 'a

fun stateOf :: "'a outcome \<Rightarrow> 'a" where
  "stateOf (Done s) = s"
| "stateOf (Thrown e s) = s"

fun isThrown :: "'a outcome \<Rightarrow> bool" where
  "isThrown (Done s) = False"
| "isThrown (Thrown e s) = True"

text \<open>A slotted element: its identity and its \<open>style.display\<close>.\<close>

record item =
  handle :: nat
  itemDisplay :: string

text \<open>
  A page-number button of the numbers container: \<open>dataset.page\<close>, whether it carries the
  class \<open>active\<close> (and \<open>aria-current="page"\<close>), and its \<open>style.display\<close>.
\<close>

record pageButton =
  page :: int
  active :: bool
  btnDisplay :: string

text \<open>The \<open>detail\<close> of a \<open>pagechange\<close> event.\<close>

record pagechange =
  d_currentPage :: rat
  d_totalPages :: int
  d_itemsPerPage :: int
  d_startIndex :: rat
  d_endIndex :: rat

record state =
  itemsPerPage :: int
  prevText :: string
  nextText :: string
  currentPage :: rat
  totalPages :: int
  items :: "item list"
  prevDisabled :: bool
  nextDisabled :: bool
  prevTextContent :: string
  nextTextContent :: string
  buttons :: "pageButton list"
  controlsDisplay :: string
  innerWidth :: int
  dispatched :: "pagechange list"

text \<open>
  The constructor, with \<open>render\<close>: the controls are rendered hidden, the previous and next
  buttons enabled, the numbers container empty. \<open>w\<close> is \<open>window.innerWidth\<close>.
\<close>

definition constructor :: "int \<Rightarrow> state" where
  "constructor w =
     \<lparr>itemsPerPage = 3, prevText = ''Prev'', nextText = ''Next'',
      currentPage = 1, totalPages = 1, items = [],
      prevDisabled = False, nextDisabled = False,
      prevTextContent = ''Prev'', nextTextContent = ''Next'',
      buttons = [], controlsDisplay = ''none'',
      innerWidth = w, dispatched = []\<rparr>"

subsection \<open>parseInt\<close>

text \<open>
  \<open>parseInt(string)\<close> with no radix, as ECMAScript defines it: leading white space is
  skipped, then an optional sign, then an optional \<open>0x\<close> or \<open>0X\<close> (radix 16, otherwise 10),
  then the longest run of digits of the radix; an empty run is \<open>NaN\<close> (\<open>None\<close>). The result
  is the exact integer, which is the double that JavaScript returns while it is below
  \<open>2 ^ 53\<close>; from there on JavaScript rounds (and returns \<open>Infinity\<close> on overflow), which
  this function does not, and nothing below is about such values. Characters are the 256 of type \<open>char\<close>, so the white space is the Latin-1 part
  of JavaScript's: tab, line feed, vertical tab, form feed, carriage return, space and
  no-break space.
\<close>

definition isWhiteSpace :: "char \<Rightarrow> bool" where
  "isWhiteSpace c =
     (let n = (of_char c :: nat)
      in n = 9 \<or> n = 10 \<or> n = 11 \<or> n = 12 \<or> n = 13 \<or> n = 32 \<or> n = 160)"

definition digitVal :: "char \<Rightarrow> nat" where
  "digitVal c =
     (let n = (of_char c :: nat)
      in if 48 \<le> n \<and> n \<le> 57 then n - 48
         else if 97 \<le> n \<and> n \<le> 122 then n - 87
         else if 65 \<le> n \<and> n \<le> 90 then n - 55
         else 36)"

definition parseInt :: "string \<Rightarrow> int option" where
  "parseInt inputString =
     (let S = dropWhile isWhiteSpace inputString;
          sign = (if S \<noteq> [] \<and> hd S = CHR ''-'' then - 1 else (1::int));
          S1 = (if S \<noteq> [] \<and> (hd S = CHR ''+'' \<or> hd S = CHR ''-'') then tl S else S);
          hex = (take 2 S1 = ''0x'' \<or> take 2 S1 = ''0X'');
          R = (if hex then 16 else (10::nat));
          S2 = (if hex then drop 2 S1 else S1);
          Z = takeWhile (\<lambda>c. digitVal c < R) S2
      in if Z = [] then None
         else Some (sign * int (foldl (\<lambda>a c. a * R + digitVal c) 0 Z)))"

text \<open>An attribute value is a string or \<open>null\<close>; \<open>parseInt(null)\<close> parses the string "null".\<close>

definition toString :: "string option \<Rightarrow> string" where
  "toString v = (case v of None \<Rightarrow> ''null'' | Some str \<Rightarrow> str)"

text \<open>\<open>parseInt(newValue) || 3\<close>: \<open>NaN\<close> and \<open>0\<close> are falsy, every other number is kept.\<close>

definition orNumber :: "int option \<Rightarrow> int \<Rightarrow> int" where
  "orNumber v d = (case v of None \<Rightarrow> d | Some n \<Rightarrow> if n = 0 then d else n)"

text \<open>\<open>newValue || "Prev"\<close>: \<open>null\<close> and the empty string are falsy.\<close>

definition orString :: "string option \<Rightarrow> string \<Rightarrow> string" where
  "orString v d = (case v of None \<Rightarrow> d | Some str \<Rightarrow> if str = [] then d else str)"

subsection \<open>The methods\<close>

definition calculateTotalPages :: "state \<Rightarrow> state" where
  "calculateTotalPages s =
     (let c = \<lceil>rat_of_nat (length (items s)) / rat_of_int (itemsPerPage s)\<rceil>;
          s1 = s\<lparr>totalPages := (if c = 0 then 1 else c)\<rparr>
      in if currentPage s1 > rat_of_int (totalPages s1)
         then s1\<lparr>currentPage := rat_of_int (totalPages s1)\<rparr>
         else s1)"

definition shouldShowPageNumber :: "state \<Rightarrow> int \<Rightarrow> int \<Rightarrow> bool" where
  "shouldShowPageNumber s pageNumber displayCount =
     (if pageNumber = 1 \<or> pageNumber = totalPages s \<or> rat_of_int pageNumber = currentPage s
      then True
      else (let range = \<lfloor>rat_of_int displayCount / 2\<rfloor>
            in \<bar>rat_of_int pageNumber - currentPage s\<bar> \<le> rat_of_int range))"

definition updatePaginationVisibility :: "state \<Rightarrow> state" where
  "updatePaginationVisibility s =
     (let isMobile = (innerWidth s < 768);
          displayCount = (if isMobile then 3 else 5)
      in s\<lparr>buttons :=
             map (\<lambda>button.
                    button\<lparr>btnDisplay :=
                      (if shouldShowPageNumber s (page button) displayCount
                       then [] else ''none'')\<rparr>)
                 (buttons s)\<rparr>)"

definition createPageNumbers :: "state \<Rightarrow> state" where
  "createPageNumbers s =
     updatePaginationVisibility
       (s\<lparr>buttons :=
            map (\<lambda>i. \<lparr>page = i, active = (rat_of_int i = currentPage s), btnDisplay = []\<rparr>)
                [1 .. totalPages s]\<rparr>)"

definition updateButtonStates :: "state \<Rightarrow> state" where
  "updateButtonStates s =
     s\<lparr>prevDisabled := (currentPage s = 1),
       nextDisabled := (currentPage s = rat_of_int (totalPages s))\<rparr>"

definition updateActivePageNumber :: "state \<Rightarrow> state" where
  "updateActivePageNumber s =
     s\<lparr>buttons :=
         map (\<lambda>button. button\<lparr>active := (rat_of_int (page button) = currentPage s)\<rparr>)
             (buttons s)\<rparr>"

text \<open>
  The loop of \<open>updateDisplay\<close> that shows the items of the current page:
  \<^verbatim>\<open>for (let i = startIndex; i < endIndex && i < this.items.length; i++)
     this.items[i].style.display = "";\<close>
  \<open>this.items[i]\<close> is an element only when \<open>i\<close> is an integer index of the array; otherwise
  it is \<open>undefined\<close> and reading \<open>.style\<close> throws a TypeError.
\<close>

function showItems :: "rat \<Rightarrow> rat \<Rightarrow> item list \<Rightarrow> item list outcome" where
  "showItems i endIndex its =
     (if i < endIndex \<and> i < rat_of_nat (length its)
      then (if rat_of_int \<lfloor>i\<rfloor> = i \<and> 0 \<le> i
            then showItems (i + 1) endIndex
                   (its[nat \<lfloor>i\<rfloor> := (its ! nat \<lfloor>i\<rfloor>)\<lparr>itemDisplay := []\<rparr>])
            else Thrown TypeError its)
      else Done its)"
  by pat_completeness auto
termination
proof (relation "measure (\<lambda>(i, endIndex, its). nat \<lceil>rat_of_nat (length its) - i\<rceil>)")
  show "wf (measure (\<lambda>(i, endIndex, its). nat \<lceil>rat_of_nat (length its) - i\<rceil>))"
    by simp
next
  fix i endIndex :: rat and its :: "item list"
  assume a: "i < endIndex \<and> i < rat_of_nat (length its)"
  then have "0 < rat_of_nat (length its) - i" by simp
  then have "0 < \<lceil>rat_of_nat (length its) - i\<rceil>" by simp
  moreover have "\<lceil>rat_of_nat (length its) - (i + 1)\<rceil> = \<lceil>rat_of_nat (length its) - i\<rceil> - 1"
  proof -
    have "rat_of_nat (length its) - (i + 1) = (rat_of_nat (length its) - i) - 1" by simp
    then show ?thesis by (simp only: ceiling_diff_one)
  qed
  ultimately show
    "((i + 1, endIndex, its[nat \<lfloor>i\<rfloor> := (its ! nat \<lfloor>i\<rfloor>)\<lparr>itemDisplay := []\<rparr>]), (i, endIndex, its))
       \<in> measure (\<lambda>(i, endIndex, its). nat \<lceil>rat_of_nat (length its) - i\<rceil>)"
    by simp
qed

definition updateDisplay :: "state \<Rightarrow> state outcome" where
  "updateDisplay s =
     (let s1 = s\<lparr>items := map (\<lambda>it. it\<lparr>itemDisplay := ''none''\<rparr>) (items s)\<rparr>;
          startIndex = (currentPage s1 - 1) * rat_of_int (itemsPerPage s1);
          endIndex = startIndex + rat_of_int (itemsPerPage s1)
      in case showItems startIndex endIndex (items s1) of
           Thrown e its \<Rightarrow> Thrown e (s1\<lparr>items := its\<rparr>)
         | Done its \<Rightarrow>
             (let s2 = updatePaginationVisibility
                         (updateActivePageNumber (updateButtonStates (s1\<lparr>items := its\<rparr>)))
              in Done (s2\<lparr>dispatched := dispatched s2 @
                         [\<lparr>d_currentPage = currentPage s2,
                           d_totalPages = totalPages s2,
                           d_itemsPerPage = itemsPerPage s2,
                           d_startIndex = startIndex,
                           d_endIndex = min endIndex (rat_of_nat (length (items s2)))\<rparr>]\<rparr>)))"

definition updatePagination :: "state \<Rightarrow> state outcome" where
  "updatePagination s =
     (case updateDisplay (createPageNumbers (calculateTotalPages s)) of
        Thrown e s1 \<Rightarrow> Thrown e s1
      | Done s1 \<Rightarrow>
          Done (s1\<lparr>controlsDisplay := (if totalPages s1 > 1 then ''flex'' else ''none'')\<rparr>))"

definition updateButtonText :: "state \<Rightarrow> state" where
  "updateButtonText s = s\<lparr>prevTextContent := prevText s, nextTextContent := nextText s\<rparr>"

definition attributeChangedCallback ::
    "string \<Rightarrow> string option \<Rightarrow> string option \<Rightarrow> state \<Rightarrow> state outcome" where
  "attributeChangedCallback name oldValue newValue s =
     (if oldValue \<noteq> newValue
      then (let s1 = (if name = ''items-per-page''
                      then s\<lparr>itemsPerPage := orNumber (parseInt (toString newValue)) 3\<rparr>
                      else if name = ''prev-text''
                      then s\<lparr>prevText := orString newValue ''Prev''\<rparr>
                      else if name = ''next-text''
                      then s\<lparr>nextText := orString newValue ''Next''\<rparr>
                      else s)
            in case updatePagination s1 of
                 Thrown e s2 \<Rightarrow> Thrown e s2
               | Done s2 \<Rightarrow> Done (updateButtonText s2))
      else Done s)"

text \<open>
  What \<open>initializePagination\<close> finds in the DOM: no slot named \<open>items\<close> (\<open>None\<close>), or the
  slot's assigned elements together with the light-DOM elements carrying \<open>slot="items"\<close>.
  The whole body is inside \<open>try\<close>: an exception is logged and the method returns.
\<close>

type_synonym slot = "(item list \<times> item list) option"

definition initializePagination :: "slot \<Rightarrow> state \<Rightarrow> state" where
  "initializePagination slot s =
     (let s1 = (case slot of
                  None \<Rightarrow> s\<lparr>items := []\<rparr>
                | Some (assignedElements, lightDom) \<Rightarrow>
                    (if length assignedElements = 0 then s\<lparr>items := lightDom\<rparr>
                     else s\<lparr>items := assignedElements\<rparr>));
          s2 = (if currentPage s1 < 1 then s1\<lparr>currentPage := 1\<rparr> else s1)
      in stateOf (updatePagination (calculateTotalPages s2)))"

definition connectedCallback :: "slot \<Rightarrow> state \<Rightarrow> state" where
  "connectedCallback slot s = updateButtonText (initializePagination slot s)"

definition goToPage :: "rat \<Rightarrow> state \<Rightarrow> state outcome" where
  "goToPage pageNumber s =
     (if pageNumber \<ge> 1 \<and> pageNumber \<le> rat_of_int (totalPages s) \<and> pageNumber \<noteq> currentPage s
      then updateDisplay (s\<lparr>currentPage := pageNumber\<rparr>)
      else Done s)"

definition refresh :: "slot \<Rightarrow> state \<Rightarrow> state" where
  "refresh slot s = initializePagination slot s"

definition getCurrentPage :: "state \<Rightarrow> rat" where
  "getCurrentPage s = currentPage s"

definition getTotalPages :: "state \<Rightarrow> int" where
  "getTotalPages s = totalPages s"

text \<open>The listeners installed by \<open>setupEventListeners\<close>.\<close>

definition prevClick :: "state \<Rightarrow> state outcome" where
  "prevClick s =
     (if currentPage s > 1 then updateDisplay (s\<lparr>currentPage := currentPage s - 1\<rparr>)
      else Done s)"

definition nextClick :: "state \<Rightarrow> state outcome" where
  "nextClick s =
     (if currentPage s < rat_of_int (totalPages s)
      then updateDisplay (s\<lparr>currentPage := currentPage s + 1\<rparr>)
      else Done s)"

text \<open>
  A click in the numbers container: the target is a page-number button (with its
  \<open>dataset.page\<close>) or something else (\<open>None\<close>).
\<close>

definition numbersClick :: "int option \<Rightarrow> state \<Rightarrow> state outcome" where
  "numbersClick target s =
     (case target of
        None \<Rightarrow> Done s
      | Some pageNumber \<Rightarrow>
          (if rat_of_int pageNumber \<noteq> currentPage s
           then updateDisplay (s\<lparr>currentPage := rat_of_int pageNumber\<rparr>)
           else Done s))"

text \<open>The window's resize event: the width has changed, then the listener runs.\<close>

definition resize :: "int \<Rightarrow> state \<Rightarrow> state" where
  "resize w s = updatePaginationVisibility (s\<lparr>innerWidth := w\<rparr>)"

subsection \<open>Scenario data\<close>

text \<open>Ten slotted elements, all displayed, and the component after its first refresh on them.\<close>

definition tenItems :: "item list" where
  "tenItems = map (\<lambda>n. \<lparr>handle = n, itemDisplay = []\<rparr>) [0..<10]"

definition scenarioState :: state where
  "scenarioState = refresh (Some (tenItems, [])) (constructor 1024)"

subsection \<open>Descriptions used in the statements\<close>

text \<open>
  These are not functions of the source. \<open>showRange\<close> is what the display loop has done when
  it has run through; \<open>badIndex\<close> says that its first index is not an index of the array;
  \<open>rendered\<close> and \<open>detailOf\<close> are the view and the event detail that a completed
  \<open>updateDisplay\<close> leaves, and \<open>throwsOnDisplay\<close> says that \<open>updateDisplay\<close> does not
  complete.
\<close>

definition showRange :: "rat \<Rightarrow> rat \<Rightarrow> item list \<Rightarrow> item list" where
  "showRange i endIndex its =
     map (\<lambda>(j, it). if i \<le> rat_of_nat j \<and> rat_of_nat j < endIndex
                     then it\<lparr>itemDisplay := []\<rparr> else it)
         (enumerate 0 its)"

definition badIndex :: "rat \<Rightarrow> rat \<Rightarrow> nat \<Rightarrow> bool" where
  "badIndex i endIndex n \<longleftrightarrow>
     i < endIndex \<and> i < rat_of_nat n \<and> \<not> (rat_of_int \<lfloor>i\<rfloor> = i \<and> 0 \<le> i)"


definition startIndexOf :: "state \<Rightarrow> rat" where
  "startIndexOf s = (currentPage s - 1) * rat_of_int (itemsPerPage s)"

definition endIndexOf :: "state \<Rightarrow> rat" where
  "endIndexOf s = startIndexOf s + rat_of_int (itemsPerPage s)"

definition pageItems :: "rat \<Rightarrow> rat \<Rightarrow> item list \<Rightarrow> item list" where
  "pageItems startIndex endIndex its =
     map (\<lambda>(j, it). it\<lparr>itemDisplay :=
                        (if startIndex \<le> rat_of_nat j \<and> rat_of_nat j < endIndex
                         then [] else ''none'')\<rparr>)
         (enumerate 0 its)"

definition viewButtons :: "state \<Rightarrow> pageButton list" where
  "viewButtons s =
     map (\<lambda>b. b\<lparr>active := (rat_of_int (page b) = currentPage s),
                 btnDisplay := (if shouldShowPageNumber s (page b)
                                     (if innerWidth s < 768 then 3 else 5)
                                then [] else ''none'')\<rparr>)
         (buttons s)"

definition rendered :: "state \<Rightarrow> state" where
  "rendered s =
     s\<lparr>items := pageItems (startIndexOf s) (endIndexOf s) (items s),
       prevDisabled := (currentPage s = 1),
       nextDisabled := (currentPage s = rat_of_int (totalPages s)),
       buttons := viewButtons s\<rparr>"

definition detailOf :: "state \<Rightarrow> pagechange" where
  "detailOf s =
     \<lparr>d_currentPage = currentPage s,
      d_totalPages = totalPages s,
      d_itemsPerPage = itemsPerPage s,
      d_startIndex = startIndexOf s,
      d_endIndex = min (endIndexOf s) (rat_of_nat (length (items s)))\<rparr>"

definition throwsOnDisplay :: "state \<Rightarrow> bool" where
  "throwsOnDisplay s \<longleftrightarrow> badIndex (startIndexOf s) (endIndexOf s) (length (items s))"

text \<open>
  For \<open>initializePagination\<close>: the elements it picks, the page count and the clamped page
  that \<open>calculateTotalPages\<close> computes, the buttons that \<open>createPageNumbers\<close> leaves, and
  the state \<open>prepared\<close> in which \<open>updateDisplay\<close> is entered. \<open>sameElements\<close> says that two
  readings of the slot found the same elements, whatever their display.
\<close>

definition chosenItems :: "slot \<Rightarrow> item list" where
  "chosenItems slot =
     (case slot of None \<Rightarrow> []
      | Some (assignedElements, lightDom) \<Rightarrow>
          if length assignedElements = 0 then lightDom else assignedElements)"

definition pagesFor :: "nat \<Rightarrow> int \<Rightarrow> int" where
  "pagesFor count perPage =
     (let c = \<lceil>rat_of_nat count / rat_of_int perPage\<rceil> in if c = 0 then 1 else c)"

definition clampDown :: "rat \<Rightarrow> int \<Rightarrow> rat" where
  "clampDown cp T = (if cp > rat_of_int T then rat_of_int T else cp)"

definition freshButtons :: "state \<Rightarrow> pageButton list" where
  "freshButtons s =
     map (\<lambda>i. \<lparr>page = i, active = (rat_of_int i = currentPage s),
               btnDisplay = (if shouldShowPageNumber s i (if innerWidth s < 768 then 3 else 5)
                             then [] else ''none'')\<rparr>)
         [1 .. totalPages s]"

definition sameElements :: "slot \<Rightarrow> slot \<Rightarrow> bool" where
  "sameElements a b =
     (case (a, b) of
        (None, None) \<Rightarrow> True
      | (Some (x, y), Some (x', y')) \<Rightarrow> map handle x = map handle x' \<and> map handle y = map handle y'
      | _ \<Rightarrow> False)"

definition prepared :: "slot \<Rightarrow> state \<Rightarrow> state" where
  "prepared slot s =
     (let L = chosenItems slot;
          T = pagesFor (length L) (itemsPerPage s);
          cp = clampDown (if currentPage s < 1 then 1 else currentPage s) T;
          c = s\<lparr>items := L, totalPages := T, currentPage := cp\<rparr>
      in c\<lparr>buttons := freshButtons c\<rparr>)"

subsection \<open>Transitions\<close>

text \<open>
  What reaches the component from outside: an attribute change, a refresh, a call of
  \<open>goToPage\<close>, a click on the previous or the next button, a click on a page-number button
  (only a button that exists can be clicked), and a resize of the window. An exception
  leaves the state as it was when thrown, and the next transition starts from there.

  \<open>benign\<close> excludes the two inputs after which the page range can fail: an
  \<open>items-per-page\<close> value that is stored as a negative number, and a page number that is not
  an integer. \<open>wellFormed\<close> is the invariant that the remaining transitions keep.
\<close>

datatype transition =
    Reconfigure string "string option" "string option"
  | Refresh slot
  | NavigateTo rat
  | NavigatePrev
  | NavigateNext
  | PageClick int
  | ResizeSignal int

fun step :: "transition \<Rightarrow> state \<Rightarrow> state" where
  "step (Reconfigure name oldValue newValue) s =
     stateOf (attributeChangedCallback name oldValue newValue s)"
| "step (Refresh slot) s = refresh slot s"
| "step (NavigateTo pageNumber) s = stateOf (goToPage pageNumber s)"
| "step NavigatePrev s = stateOf (prevClick s)"
| "step NavigateNext s = stateOf (nextClick s)"
| "step (PageClick n) s =
     (if n \<in> set (map page (buttons s)) then stateOf (numbersClick (Some n) s) else s)"
| "step (ResizeSignal w) s = resize w s"

fun run :: "transition list \<Rightarrow> state \<Rightarrow> state" where
  "run [] s = s"
| "run (t # ts) s = run ts (step t s)"

fun benign :: "transition \<Rightarrow> bool" where
  "benign (Reconfigure name oldValue newValue) =
     (if name = ''items-per-page'' \<and> oldValue \<noteq> newValue
      then 1 \<le> orNumber (parseInt (toString newValue)) 3 else True)"
| "benign (NavigateTo pageNumber) = (rat_of_int \<lfloor>pageNumber\<rfloor> = pageNumber)"
| "benign t = True"

definition wellFormed :: "state \<Rightarrow> bool" where
  "wellFormed s \<longleftrightarrow>
     1 \<le> itemsPerPage s
     \<and> rat_of_int \<lfloor>currentPage s\<rfloor> = currentPage s
     \<and> 1 \<le> currentPage s \<and> currentPage s \<le> rat_of_int (totalPages s)
     \<and> list_all (\<lambda>b. 1 \<le> page b \<and> page b \<le> totalPages s) (buttons s)"

section \<open>Properties\<close>

subsection \<open>The display loop and updateDisplay\<close>

declare showItems.simps [simp del]

lemma length_showRange [simp]: "length (showRange i e its) = length its"
  by (simp add: showRange_def)

lemma nth_showRange:
  "j < length its \<Longrightarrow>
   showRange i e its ! j =
     (if i \<le> rat_of_nat j \<and> rat_of_nat j < e then (its ! j)\<lparr>itemDisplay := []\<rparr> else its ! j)"
  by (simp add: showRange_def nth_enumerate_eq)

lemma showItems_nat:
  "showItems (rat_of_nat a) e its = Done (showRange (rat_of_nat a) e its)"
proof (induction "length its - a" arbitrary: a its)
  case 0
  then have "length its \<le> a" by simp
  then have "showItems (rat_of_nat a) e its = Done its"
    by (subst showItems.simps) simp
  moreover have "showRange (rat_of_nat a) e its = its"
    using \<open>length its \<le> a\<close> by (intro nth_equalityI) (simp_all add: nth_showRange)
  ultimately show ?case by simp
next
  case (Suc n)
  then have lt: "a < length its" by simp
  show ?case
  proof (cases "rat_of_nat a < e")
    case False
    then have "showItems (rat_of_nat a) e its = Done its"
      by (subst showItems.simps) simp
    moreover have "showRange (rat_of_nat a) e its = its"
      using False by (intro nth_equalityI) (auto simp add: nth_showRange)
    ultimately show ?thesis by simp
  next
    case True
    let ?its = "its[a := (its ! a)\<lparr>itemDisplay := []\<rparr>]"
    have step: "showItems (rat_of_nat a) e its = showItems (rat_of_nat (Suc a)) e ?its"
      using True lt by (subst showItems.simps) (simp add: add.commute)
    have "n = length ?its - Suc a" using Suc.hyps(2) by simp
    then have ih: "showItems (rat_of_nat (Suc a)) e ?its = Done (showRange (rat_of_nat (Suc a)) e ?its)"
      by (rule Suc.hyps(1))
    have "showRange (rat_of_nat (Suc a)) e ?its = showRange (rat_of_nat a) e its"
    proof (intro nth_equalityI)
      show "length (showRange (rat_of_nat (Suc a)) e ?its) = length (showRange (rat_of_nat a) e its)"
        by simp
    next
      fix j assume "j < length (showRange (rat_of_nat (Suc a)) e ?its)"
      then have j: "j < length its" by simp
      show "showRange (rat_of_nat (Suc a)) e ?its ! j = showRange (rat_of_nat a) e its ! j"
      proof (cases "j = a")
        case True
        then show ?thesis using j \<open>rat_of_nat a < e\<close> by (simp add: nth_showRange)
      next
        case False
        then have "(Suc a \<le> j) = (a \<le> j)" by auto
        then show ?thesis using j False
          by (simp add: nth_showRange del: of_nat_Suc)
      qed
    qed
    with step ih show ?thesis by simp
  qed
qed

lemma showItems_bad:
  "badIndex i e (length its) \<Longrightarrow> showItems i e its = Thrown TypeError its"
  by (subst showItems.simps) (auto simp add: badIndex_def)

lemma showItems_good:
  assumes "\<not> badIndex i e (length its)"
  shows "showItems i e its = Done (showRange i e its)"
proof (cases "i < e \<and> i < rat_of_nat (length its)")
  case False
  then have "showItems i e its = Done its"
    by (subst showItems.simps) (simp only: if_False)
  moreover have "showRange i e its = its"
    using False by (intro nth_equalityI) (auto simp add: nth_showRange)
  ultimately show ?thesis by simp
next
  case True
  with assms have int: "rat_of_int \<lfloor>i\<rfloor> = i" and nn: "0 \<le> i"
    by (auto simp add: badIndex_def)
  have "0 \<le> \<lfloor>i\<rfloor>" using nn by simp
  then have "rat_of_int \<lfloor>i\<rfloor> = rat_of_nat (nat \<lfloor>i\<rfloor>)" by simp
  with int [symmetric] have "i = rat_of_nat (nat \<lfloor>i\<rfloor>)" by (rule trans)
  then show ?thesis using showItems_nat [of "nat \<lfloor>i\<rfloor>" e its] by simp
qed


lemma showRange_hidden:
  "showRange i e (map (\<lambda>it. it\<lparr>itemDisplay := ''none''\<rparr>) its) = pageItems i e its"
  by (intro nth_equalityI) (simp_all add: nth_showRange pageItems_def nth_enumerate_eq)

lemma shouldShowPageNumber_cong:
  "totalPages t = totalPages s \<Longrightarrow> currentPage t = currentPage s \<Longrightarrow>
   shouldShowPageNumber t = shouldShowPageNumber s"
  by (intro ext) (simp add: shouldShowPageNumber_def)

lemma updateDisplay_thrown:
  assumes "throwsOnDisplay s"
  shows "updateDisplay s =
           Thrown TypeError (s\<lparr>items := map (\<lambda>it. it\<lparr>itemDisplay := ''none''\<rparr>) (items s)\<rparr>)"
proof -
  have "showItems (startIndexOf s) (endIndexOf s) (map (\<lambda>it. it\<lparr>itemDisplay := ''none''\<rparr>) (items s))
          = Thrown TypeError (map (\<lambda>it. it\<lparr>itemDisplay := ''none''\<rparr>) (items s))"
    using assms by (intro showItems_bad) (simp add: throwsOnDisplay_def)
  then show ?thesis
    by (simp add: updateDisplay_def Let_def startIndexOf_def endIndexOf_def)
qed

lemma updateDisplay_done:
  assumes "\<not> throwsOnDisplay s"
  shows "updateDisplay s = Done ((rendered s)\<lparr>dispatched := dispatched s @ [detailOf s]\<rparr>)"
proof -
  have "showItems (startIndexOf s) (endIndexOf s) (map (\<lambda>it. it\<lparr>itemDisplay := ''none''\<rparr>) (items s))
          = Done (pageItems (startIndexOf s) (endIndexOf s) (items s))"
    using assms showItems_good [of "startIndexOf s" "endIndexOf s" "map (\<lambda>it. it\<lparr>itemDisplay := ''none''\<rparr>) (items s)"]
    by (simp add: throwsOnDisplay_def showRange_hidden)
  then show ?thesis
    by (simp add: updateDisplay_def Let_def startIndexOf_def endIndexOf_def rendered_def
        detailOf_def viewButtons_def updatePaginationVisibility_def updateActivePageNumber_def
        updateButtonStates_def shouldShowPageNumber_def pageItems_def comp_def)
qed

lemma throwsOnDisplay_iff:
  "throwsOnDisplay s \<longleftrightarrow>
     0 < itemsPerPage s \<and> startIndexOf s < rat_of_nat (length (items s))
     \<and> \<not> (startIndexOf s \<in> \<int> \<and> 0 \<le> startIndexOf s)"
  by (auto simp add: throwsOnDisplay_def badIndex_def endIndexOf_def Ints_def)

lemma integer_page_no_throw:
  assumes "1 \<le> n"
  shows "\<not> throwsOnDisplay (s\<lparr>currentPage := rat_of_int n\<rparr>)"
proof (cases "0 < itemsPerPage s")
  case False
  then show ?thesis by (simp add: throwsOnDisplay_iff)
next
  case True
  have "0 \<le> rat_of_int n - 1" and "0 \<le> rat_of_int (itemsPerPage s)"
    using assms True by simp_all
  then have nn: "0 \<le> startIndexOf (s\<lparr>currentPage := rat_of_int n\<rparr>)"
    by (simp add: startIndexOf_def)
  have "startIndexOf (s\<lparr>currentPage := rat_of_int n\<rparr>) = rat_of_int ((n - 1) * itemsPerPage s)"
    by (simp add: startIndexOf_def)
  then have "startIndexOf (s\<lparr>currentPage := rat_of_int n\<rparr>) \<in> \<int>"
    by (simp only: Ints_of_int)
  with nn show ?thesis
    by (simp add: throwsOnDisplay_iff)
qed


subsection \<open>Page arithmetic\<close>

lemma totalPages_calculateTotalPages:
  "totalPages (calculateTotalPages s) =
     (let c = \<lceil>rat_of_nat (length (items s)) / rat_of_int (itemsPerPage s)\<rceil>
      in if c = 0 then 1 else c)"
  by (simp add: calculateTotalPages_def Let_def)

text \<open>
  C4: for every item count and every \<open>itemsPerPage \<ge> 1\<close>, the total page count computed by
  \<open>calculateTotalPages\<close> is \<open>max 1 \<lceil>count / itemsPerPage\<rceil>\<close>; an empty collection has
  exactly one page.
\<close>

theorem calculateTotalPages_max_ceiling:
  assumes "1 \<le> itemsPerPage s"
  shows "totalPages (calculateTotalPages s) =
           max 1 \<lceil>rat_of_nat (length (items s)) / rat_of_int (itemsPerPage s)\<rceil>
         \<and> (items s = [] \<longrightarrow> totalPages (calculateTotalPages s) = 1)"
proof -
  define c where "c = \<lceil>rat_of_nat (length (items s)) / rat_of_int (itemsPerPage s)\<rceil>"
  have "0 \<le> rat_of_nat (length (items s)) / rat_of_int (itemsPerPage s)"
    using assms by simp
  then have "0 \<le> c"
    unfolding c_def by (simp add: zero_le_ceiling)
  then have "(if c = 0 then 1 else c) = max 1 c"
    by (simp add: max_def)
  moreover have "items s = [] \<Longrightarrow> c = 0"
    unfolding c_def by simp
  ultimately show ?thesis
    unfolding totalPages_calculateTotalPages Let_def c_def [symmetric] by simp
qed

theorem calculateTotalPages_max_ceiling_witness:
  "totalPages (calculateTotalPages ((constructor 1024)\<lparr>items := tenItems\<rparr>)) = 4
   \<and> totalPages (calculateTotalPages (constructor 1024)) = 1"
proof -
  have a: "1 \<le> itemsPerPage ((constructor 1024)\<lparr>items := tenItems\<rparr>)"
    and b: "1 \<le> itemsPerPage (constructor 1024)"
    by (simp_all add: constructor_def)
  have c: "length (items ((constructor 1024)\<lparr>items := tenItems\<rparr>)) = 10"
    and d: "itemsPerPage ((constructor 1024)\<lparr>items := tenItems\<rparr>) = 3"
    and e: "items (constructor 1024) = []"
    by (simp_all add: constructor_def tenItems_def)
  have f: "max 1 \<lceil>rat_of_nat 10 / rat_of_int 3\<rceil> = 4"
    by (simp add: ceiling_eq_iff)
  show ?thesis
    using calculateTotalPages_max_ceiling [OF a] calculateTotalPages_max_ceiling [OF b]
    unfolding c d f by (simp add: e)
qed

text \<open>
  C6: a page number is shown in the page-button window exactly when it is the first page,
  the last page, the current page, or within \<open>\<lfloor>displayCount / 2\<rfloor>\<close> of the current page. So the
  first, the last and the current page are always shown; \<open>updatePaginationVisibility\<close> sets
  each button's display by this test (with \<open>displayCount\<close> 3 below 768 pixels, else 5); and
  with \<open>displayCount = 3\<close>, ten pages and current page 5 the shown buttons are 1, 4, 5, 6, 10.
\<close>

theorem shouldShowPageNumber_window:
  "(shouldShowPageNumber s p d \<longleftrightarrow>
      p = 1 \<or> p = totalPages s \<or> rat_of_int p = currentPage s
      \<or> \<bar>rat_of_int p - currentPage s\<bar> \<le> rat_of_int \<lfloor>rat_of_int d / 2\<rfloor>)
   \<and> shouldShowPageNumber s 1 d
   \<and> shouldShowPageNumber s (totalPages s) d
   \<and> shouldShowPageNumber (s\<lparr>currentPage := rat_of_int p\<rparr>) p d
   \<and> map btnDisplay (buttons (updatePaginationVisibility s)) =
       map (\<lambda>b. if shouldShowPageNumber s (page b) (if innerWidth s < 768 then 3 else 5)
                 then [] else ''none'') (buttons s)
   \<and> map page (filter (\<lambda>b. btnDisplay b \<noteq> ''none'')
        (buttons (createPageNumbers ((constructor 500)\<lparr>totalPages := 10, currentPage := 5\<rparr>))))
       = [1, 4, 5, 6, 10]"
  apply (intro conjI)
  subgoal by (auto simp add: shouldShowPageNumber_def Let_def)
  subgoal by (simp add: shouldShowPageNumber_def)
  subgoal by (simp add: shouldShowPageNumber_def)
  subgoal by (simp add: shouldShowPageNumber_def)
  subgoal by (simp add: updatePaginationVisibility_def Let_def comp_def)
  subgoal by code_simp
  done

subsection \<open>Scenarios\<close>

text \<open>
  C7: with ten items and \<open>itemsPerPage = 3\<close> the component has four pages and is on page 1;
  \<open>goToPage(2)\<close> then leaves exactly the items at indices 3, 4, 5 displayed and dispatches one
  \<open>pagechange\<close> event with detail \<open>{currentPage: 2, totalPages: 4, itemsPerPage: 3,
  startIndex: 3, endIndex: 6}\<close>.
\<close>

theorem goToPage_scenario_ten_items:
  "itemsPerPage scenarioState = 3
   \<and> length (items scenarioState) = 10
   \<and> totalPages scenarioState = 4
   \<and> currentPage scenarioState = 1
   \<and> \<not> isThrown (goToPage 2 scenarioState)
   \<and> filter (\<lambda>i. itemDisplay (items (stateOf (goToPage 2 scenarioState)) ! i) \<noteq> ''none'') [0..<10]
       = [3, 4, 5]
   \<and> dispatched (stateOf (goToPage 2 scenarioState)) =
       dispatched scenarioState @
         [\<lparr>d_currentPage = 2, d_totalPages = 4, d_itemsPerPage = 3,
           d_startIndex = 3, d_endIndex = 6\<rparr>]"
  by code_simp

subsection \<open>Navigation\<close>

lemma nth_pageItems:
  "j < length its \<Longrightarrow>
   pageItems a b its ! j =
     (its ! j)\<lparr>itemDisplay := (if a \<le> rat_of_nat j \<and> rat_of_nat j < b then [] else ''none'')\<rparr>"
  by (simp add: pageItems_def nth_enumerate_eq)

lemma length_pageItems [simp]: "length (pageItems a b its) = length its"
  by (simp add: pageItems_def)

lemma handle_pageItems [simp]: "map handle (pageItems a b its) = map handle its"
  by (intro nth_equalityI) (simp_all add: nth_pageItems)

lemma scenarioState_facts:
  "totalPages scenarioState = 4" "currentPage scenarioState = 1"
  "itemsPerPage scenarioState = 3" "length (items scenarioState) = 10"
  by code_simp+

text \<open>
  C5: \<open>goToPage(p)\<close> changes nothing and dispatches nothing when \<open>p < 1\<close>, \<open>p > totalPages\<close> or
  \<open>p = currentPage\<close>, for every number \<open>p\<close>. For every other page number \<open>n\<close> (an integer, as
  page numbers are) it returns normally with \<open>currentPage = n\<close>, the view recomputed for
  page \<open>n\<close> (item visibility, previous and next buttons, active and shown page buttons) and
  exactly one \<open>pagechange\<close> event added; \<open>totalPages\<close>, \<open>itemsPerPage\<close> and the item
  elements are as before.
\<close>

theorem goToPage_noop_or_navigate:
  "(p < 1 \<or> p > rat_of_int (totalPages s) \<or> p = currentPage s \<longrightarrow> goToPage p s = Done s)
   \<and> (1 \<le> n \<and> n \<le> totalPages s \<and> rat_of_int n \<noteq> currentPage s \<longrightarrow>
        goToPage (rat_of_int n) s =
          Done ((rendered (s\<lparr>currentPage := rat_of_int n\<rparr>))
                 \<lparr>dispatched := dispatched s @ [detailOf (s\<lparr>currentPage := rat_of_int n\<rparr>)]\<rparr>)
        \<and> currentPage (stateOf (goToPage (rat_of_int n) s)) = rat_of_int n
        \<and> totalPages (stateOf (goToPage (rat_of_int n) s)) = totalPages s
        \<and> itemsPerPage (stateOf (goToPage (rat_of_int n) s)) = itemsPerPage s
        \<and> map handle (items (stateOf (goToPage (rat_of_int n) s))) = map handle (items s)
        \<and> map itemDisplay (items (stateOf (goToPage (rat_of_int n) s))) =
            map (\<lambda>j. if (n - 1) * itemsPerPage s \<le> int j \<and> int j < (n - 1) * itemsPerPage s + itemsPerPage s
                      then [] else ''none'') [0..<length (items s)]
        \<and> prevDisabled (stateOf (goToPage (rat_of_int n) s)) = (n = 1)
        \<and> nextDisabled (stateOf (goToPage (rat_of_int n) s)) = (n = totalPages s)
        \<and> map page (buttons (stateOf (goToPage (rat_of_int n) s))) = map page (buttons s)
        \<and> map active (buttons (stateOf (goToPage (rat_of_int n) s))) = map (\<lambda>b. page b = n) (buttons s)
        \<and> dispatched (stateOf (goToPage (rat_of_int n) s)) =
            dispatched s @
              [\<lparr>d_currentPage = rat_of_int n, d_totalPages = totalPages s,
                d_itemsPerPage = itemsPerPage s,
                d_startIndex = rat_of_int ((n - 1) * itemsPerPage s),
                d_endIndex = min (rat_of_int ((n - 1) * itemsPerPage s + itemsPerPage s))
                                 (rat_of_nat (length (items s)))\<rparr>])"
proof (intro conjI impI)
  assume "p < 1 \<or> p > rat_of_int (totalPages s) \<or> p = currentPage s"
  then show "goToPage p s = Done s"
    by (auto simp add: goToPage_def)
next
  assume a: "1 \<le> n \<and> n \<le> totalPages s \<and> rat_of_int n \<noteq> currentPage s"
  let ?s = "s\<lparr>currentPage := rat_of_int n\<rparr>"
  let ?r = "(rendered ?s)\<lparr>dispatched := dispatched s @ [detailOf ?s]\<rparr>"
  have "goToPage (rat_of_int n) s = updateDisplay ?s"
    using a by (simp add: goToPage_def)
  also have "\<dots> = Done ?r"
    using integer_page_no_throw [of n s] a updateDisplay_done [of ?s] by simp
  finally show go: "goToPage (rat_of_int n) s = Done ?r" .
  show "currentPage (stateOf (goToPage (rat_of_int n) s)) = rat_of_int n"
    by (simp add: go rendered_def)
  show "totalPages (stateOf (goToPage (rat_of_int n) s)) = totalPages s"
    by (simp add: go rendered_def)
  show "itemsPerPage (stateOf (goToPage (rat_of_int n) s)) = itemsPerPage s"
    by (simp add: go rendered_def)
  show "map handle (items (stateOf (goToPage (rat_of_int n) s))) = map handle (items s)"
    by (simp add: go rendered_def)
  have idx: "\<And>j. (rat_of_int n - 1) * rat_of_int (itemsPerPage s) \<le> rat_of_nat j
              \<longleftrightarrow> (n - 1) * itemsPerPage s \<le> int j"
            "\<And>j. rat_of_nat j < (rat_of_int n - 1) * rat_of_int (itemsPerPage s) + rat_of_int (itemsPerPage s)
              \<longleftrightarrow> int j < (n - 1) * itemsPerPage s + itemsPerPage s"
  proof -
    fix j
    have "rat_of_int ((n - 1) * itemsPerPage s) \<le> rat_of_int (int j) \<longleftrightarrow> (n - 1) * itemsPerPage s \<le> int j"
      by (rule of_int_le_iff)
    then show "(rat_of_int n - 1) * rat_of_int (itemsPerPage s) \<le> rat_of_nat j
              \<longleftrightarrow> (n - 1) * itemsPerPage s \<le> int j" by simp
    have "rat_of_int (int j) < rat_of_int ((n - 1) * itemsPerPage s + itemsPerPage s)
            \<longleftrightarrow> int j < (n - 1) * itemsPerPage s + itemsPerPage s"
      by (rule of_int_less_iff)
    then show "rat_of_nat j < (rat_of_int n - 1) * rat_of_int (itemsPerPage s) + rat_of_int (itemsPerPage s)
              \<longleftrightarrow> int j < (n - 1) * itemsPerPage s + itemsPerPage s" by simp
  qed
  show "map itemDisplay (items (stateOf (goToPage (rat_of_int n) s))) =
            map (\<lambda>j. if (n - 1) * itemsPerPage s \<le> int j \<and> int j < (n - 1) * itemsPerPage s + itemsPerPage s
                      then [] else ''none'') [0..<length (items s)]"
    by (intro nth_equalityI)
       (simp_all add: go rendered_def nth_pageItems startIndexOf_def endIndexOf_def idx)
  show "prevDisabled (stateOf (goToPage (rat_of_int n) s)) = (n = 1)"
    by (simp add: go rendered_def)
  show "nextDisabled (stateOf (goToPage (rat_of_int n) s)) = (n = totalPages s)"
    by (simp add: go rendered_def)
  show "map page (buttons (stateOf (goToPage (rat_of_int n) s))) = map page (buttons s)"
    by (simp add: go rendered_def viewButtons_def comp_def)
  show "map active (buttons (stateOf (goToPage (rat_of_int n) s))) = map (\<lambda>b. page b = n) (buttons s)"
    by (simp add: go rendered_def viewButtons_def comp_def)
  show "dispatched (stateOf (goToPage (rat_of_int n) s)) =
            dispatched s @
              [\<lparr>d_currentPage = rat_of_int n, d_totalPages = totalPages s,
                d_itemsPerPage = itemsPerPage s,
                d_startIndex = rat_of_int ((n - 1) * itemsPerPage s),
                d_endIndex = min (rat_of_int ((n - 1) * itemsPerPage s + itemsPerPage s))
                                 (rat_of_nat (length (items s)))\<rparr>]"
    by (simp add: go rendered_def detailOf_def startIndexOf_def endIndexOf_def)
qed

theorem goToPage_noop_or_navigate_witness:
  "goToPage 7 scenarioState = Done scenarioState
   \<and> goToPage 1 scenarioState = Done scenarioState
   \<and> currentPage (stateOf (goToPage 2 scenarioState)) = 2
   \<and> dispatched (stateOf (goToPage 2 scenarioState)) =
       dispatched scenarioState @
         [\<lparr>d_currentPage = 2, d_totalPages = 4, d_itemsPerPage = 3,
           d_startIndex = 3, d_endIndex = 6\<rparr>]"
  using goToPage_noop_or_navigate [of 7 scenarioState 2]
    goToPage_noop_or_navigate [of 1 scenarioState 2]
  by (simp add: scenarioState_facts)

text \<open>
  C10: the claim is that for every number \<open>p\<close> with \<open>1 \<le> p \<le> totalPages\<close> and
  \<open>p \<noteq> currentPage\<close>, integer or not, \<open>goToPage(p)\<close> sets \<open>currentPage\<close> to \<open>p\<close> and dispatches
  an event whose \<open>startIndex\<close> is \<open>(p - 1) * itemsPerPage\<close>. With ten items, three per page,
  \<open>goToPage(2.5)\<close> passes the guard and sets \<open>currentPage\<close> to \<open>2.5\<close>; \<open>updateDisplay\<close> hides
  every item, and its loop then reads \<open>this.items[4.5].style\<close> and throws a TypeError, so that
  no event is dispatched.
\<close>

theorem goToPage_fraction_throws:
  "1 \<le> (5 / 2 :: rat)
   \<and> 5 / 2 \<le> rat_of_int (totalPages scenarioState)
   \<and> 5 / 2 \<noteq> currentPage scenarioState
   \<and> isThrown (goToPage (5 / 2) scenarioState)
   \<and> dispatched (stateOf (goToPage (5 / 2) scenarioState)) = dispatched scenarioState
   \<and> getCurrentPage (stateOf (goToPage (5 / 2) scenarioState)) = 5 / 2"
  by code_simp

text \<open>
  The assignment to \<open>currentPage\<close> comes before the display: once the guard has passed,
  \<open>getCurrentPage()\<close> returns the argument, whether or not \<open>updateDisplay\<close> completes.
\<close>

lemma goToPage_sets_currentPage:
  assumes "1 \<le> p" and "p \<le> rat_of_int (totalPages s)" and "p \<noteq> currentPage s"
  shows "getCurrentPage (stateOf (goToPage p s)) = p"
proof -
  have "goToPage p s = updateDisplay (s\<lparr>currentPage := p\<rparr>)"
    using assms by (simp add: goToPage_def)
  moreover have "currentPage (stateOf (updateDisplay (s\<lparr>currentPage := p\<rparr>))) = p"
  proof (cases "throwsOnDisplay (s\<lparr>currentPage := p\<rparr>)")
    case True
    then show ?thesis by (simp add: updateDisplay_thrown)
  next
    case False
    then show ?thesis by (simp add: updateDisplay_done rendered_def)
  qed
  ultimately show ?thesis by (simp add: getCurrentPage_def)
qed

subsection \<open>Refresh\<close>

lemma calculateTotalPages_eq:
  "calculateTotalPages s =
     s\<lparr>totalPages := pagesFor (length (items s)) (itemsPerPage s),
       currentPage := clampDown (currentPage s) (pagesFor (length (items s)) (itemsPerPage s))\<rparr>"
  by (simp add: calculateTotalPages_def pagesFor_def clampDown_def Let_def)

lemma clampDown_idem [simp]: "clampDown (clampDown cp T) T = clampDown cp T"
  by (simp add: clampDown_def)

lemma calculateTotalPages_idem [simp]:
  "calculateTotalPages (calculateTotalPages s) = calculateTotalPages s"
  by (simp add: calculateTotalPages_eq)

lemma createPageNumbers_eq:
  "createPageNumbers s = s\<lparr>buttons := freshButtons s\<rparr>"
  by (simp add: createPageNumbers_def updatePaginationVisibility_def freshButtons_def Let_def
      comp_def shouldShowPageNumber_def)

lemma viewButtons_fresh:
  "buttons s = freshButtons s \<Longrightarrow> viewButtons s = buttons s"
  by (simp add: viewButtons_def freshButtons_def comp_def)

lemma updatePagination_eq:
  "updatePagination s =
     (let c = (calculateTotalPages s)\<lparr>buttons := freshButtons (calculateTotalPages s)\<rparr>
      in if throwsOnDisplay c
         then Thrown TypeError (c\<lparr>items := map (\<lambda>it. it\<lparr>itemDisplay := ''none''\<rparr>) (items c)\<rparr>)
         else Done ((rendered c)\<lparr>dispatched := dispatched c @ [detailOf c],
                      controlsDisplay := (if totalPages c > 1 then ''flex'' else ''none'')\<rparr>))"
  by (simp add: updatePagination_def createPageNumbers_eq Let_def updateDisplay_thrown
      updateDisplay_done rendered_def)


lemma refresh_eq:
  "refresh slot s =
     (let c = prepared slot s
      in if throwsOnDisplay c
         then c\<lparr>items := map (\<lambda>it. it\<lparr>itemDisplay := ''none''\<rparr>) (items c)\<rparr>
         else (rendered c)\<lparr>dispatched := dispatched c @ [detailOf c],
                 controlsDisplay := (if totalPages c > 1 then ''flex'' else ''none'')\<rparr>)"
proof -
  let ?s1 = "s\<lparr>items := chosenItems slot\<rparr>"
  let ?s2 = "if currentPage ?s1 < 1 then ?s1\<lparr>currentPage := 1\<rparr> else ?s1"
  have init: "initializePagination slot s = stateOf (updatePagination (calculateTotalPages ?s2))"
    by (simp add: initializePagination_def chosenItems_def Let_def split: option.splits prod.splits)
  have prep: "(calculateTotalPages ?s2)\<lparr>buttons := freshButtons (calculateTotalPages ?s2)\<rparr>
                = prepared slot s"
    by (simp add: calculateTotalPages_eq prepared_def Let_def)
  show ?thesis
    unfolding refresh_def init updatePagination_eq calculateTotalPages_idem prep
    by (simp add: Let_def)
qed

lemma chosenItems_same:
  "sameElements a b \<Longrightarrow> map handle (chosenItems a) = map handle (chosenItems b)"
  by (auto simp add: sameElements_def chosenItems_def split: option.splits prod.splits)

lemma item_eqI:
  fixes x y :: item
  shows "handle x = handle y \<Longrightarrow> itemDisplay x = itemDisplay y \<Longrightarrow> x = y"
  by simp

lemma same_handles_nth:
  assumes "map handle xs = map handle ys" and "j < length xs"
  shows "handle (xs ! j) = handle (ys ! j)"
proof -
  have "length xs = length ys" using assms(1) by (rule map_eq_imp_length_eq)
  then have "map handle xs ! j = handle (xs ! j)" "map handle ys ! j = handle (ys ! j)"
    using assms(2) by simp_all
  then show ?thesis using assms(1) by simp
qed

lemma hidden_same:
  fixes xs ys :: "item list"
  assumes "map handle xs = map handle ys"
  shows "map (\<lambda>it. it\<lparr>itemDisplay := ''none''\<rparr>) xs = map (\<lambda>it. it\<lparr>itemDisplay := ''none''\<rparr>) ys"
proof (intro nth_equalityI)
  show len: "length (map (\<lambda>it. it\<lparr>itemDisplay := ''none''\<rparr>) xs)
          = length (map (\<lambda>it. it\<lparr>itemDisplay := ''none''\<rparr>) ys)"
    using map_eq_imp_length_eq [OF assms] by simp
  fix j assume "j < length (map (\<lambda>it. it\<lparr>itemDisplay := ''none''\<rparr>) xs)"
  then have "j < length xs" "j < length ys" using len by simp_all
  moreover have "(xs ! j)\<lparr>itemDisplay := ''none''\<rparr> = (ys ! j)\<lparr>itemDisplay := ''none''\<rparr>"
  proof (rule item_eqI)
    show "handle ((xs ! j)\<lparr>itemDisplay := ''none''\<rparr>) = handle ((ys ! j)\<lparr>itemDisplay := ''none''\<rparr>)"
      using same_handles_nth [OF assms \<open>j < length xs\<close>] by simp
    show "itemDisplay ((xs ! j)\<lparr>itemDisplay := ''none''\<rparr>) = itemDisplay ((ys ! j)\<lparr>itemDisplay := ''none''\<rparr>)"
      by simp
  qed
  ultimately show "map (\<lambda>it. it\<lparr>itemDisplay := ''none''\<rparr>) xs ! j = map (\<lambda>it. it\<lparr>itemDisplay := ''none''\<rparr>) ys ! j"
    by simp
qed

lemma pageItems_hidden:
  "pageItems a b its = pageItems a b (map (\<lambda>it. it\<lparr>itemDisplay := ''none''\<rparr>) its)"
  by (intro nth_equalityI) (simp_all add: pageItems_def nth_enumerate_eq)

lemma pageItems_same:
  assumes "map handle xs = map handle ys"
  shows "pageItems a b xs = pageItems a b ys"
  using hidden_same [OF assms] pageItems_hidden [of a b xs] pageItems_hidden [of a b ys] by simp

lemma freshButtons_cong:
  "currentPage t = currentPage s \<Longrightarrow> totalPages t = totalPages s \<Longrightarrow> innerWidth t = innerWidth s
   \<Longrightarrow> freshButtons t = freshButtons s"
  by (simp add: freshButtons_def shouldShowPageNumber_cong [of t s])

lemma clampDown_reset:
  assumes "1 \<le> cp0" and "cp = clampDown cp0 T"
  shows "clampDown (if cp < 1 then 1 else cp) T = cp"
  using assms by (auto simp add: clampDown_def split: if_splits)

lemma prepared_fields:
  "items (prepared slot s) = chosenItems slot"
  "itemsPerPage (prepared slot s) = itemsPerPage s"
  "innerWidth (prepared slot s) = innerWidth s"
  "totalPages (prepared slot s) = pagesFor (length (chosenItems slot)) (itemsPerPage s)"
  "currentPage (prepared slot s) =
     clampDown (if currentPage s < 1 then 1 else currentPage s)
       (pagesFor (length (chosenItems slot)) (itemsPerPage s))"
  "dispatched (prepared slot s) = dispatched s"
  by (simp_all add: prepared_def Let_def)

lemma prepared_buttons:
  "buttons (prepared slot s) = freshButtons (prepared slot s)"
proof -
  let ?c = "s\<lparr>items := chosenItems slot,
               totalPages := pagesFor (length (chosenItems slot)) (itemsPerPage s),
               currentPage := clampDown (if currentPage s < 1 then 1 else currentPage s)
                 (pagesFor (length (chosenItems slot)) (itemsPerPage s))\<rparr>"
  have "freshButtons (?c\<lparr>buttons := freshButtons ?c\<rparr>) = freshButtons ?c"
    by (rule freshButtons_cong) simp_all
  then show ?thesis
    by (simp add: prepared_def Let_def)
qed

lemma throwsOnDisplay_cong:
  "currentPage t = currentPage s \<Longrightarrow> itemsPerPage t = itemsPerPage s \<Longrightarrow>
   length (items t) = length (items s) \<Longrightarrow> throwsOnDisplay t = throwsOnDisplay s"
  by (simp add: throwsOnDisplay_def startIndexOf_def endIndexOf_def)

lemma prepared_again:
  assumes same: "sameElements slot slot'"
    and r: "currentPage r = currentPage (prepared slot s)"
           "totalPages r = totalPages (prepared slot s)"
           "itemsPerPage r = itemsPerPage s"
           "innerWidth r = innerWidth s"
  shows "prepared slot' r = r\<lparr>items := chosenItems slot', buttons := freshButtons (prepared slot s)\<rparr>"
proof -
  have len: "length (chosenItems slot') = length (chosenItems slot)"
    using chosenItems_same [OF same] by (metis length_map)
  let ?T = "pagesFor (length (chosenItems slot)) (itemsPerPage s)"
  let ?cp0 = "if currentPage s < 1 then 1 else currentPage s"
  have cp: "clampDown (if currentPage r < 1 then 1 else currentPage r) ?T = currentPage r"
    using clampDown_reset [of ?cp0 "currentPage r" ?T] r(1) by (simp add: prepared_fields)
  have T: "totalPages r = ?T" using r(2) by (simp add: prepared_fields)
  have pf: "pagesFor (length (chosenItems slot')) (itemsPerPage r) = totalPages r"
    using len r(3) T by simp
  have cp': "clampDown (if currentPage r < 1 then 1 else currentPage r) (totalPages r) = currentPage r"
    using cp T by simp
  have fb: "freshButtons (r\<lparr>items := chosenItems slot', totalPages := totalPages r,
                             currentPage := currentPage r\<rparr>) = freshButtons (prepared slot s)"
    by (rule freshButtons_cong) (simp_all add: r prepared_fields)
  have "prepared slot' r =
          r\<lparr>items := chosenItems slot', totalPages := totalPages r, currentPage := currentPage r,
            buttons := freshButtons (prepared slot s)\<rparr>"
    unfolding prepared_def Let_def pf cp' fb ..
  then show ?thesis by simp
qed

text \<open>
  C8: refresh is idempotent. From every state (with \<open>itemsPerPage \<noteq> 0\<close>, as in every
  execution), a second refresh that finds the same elements as the first leaves the state
  of the first unchanged but for the list of dispatched events: the same items with the same
  visibility, the same \<open>currentPage\<close> and \<open>totalPages\<close>, the same buttons and controls.
\<close>

theorem refresh_idempotent:
  assumes "itemsPerPage s \<noteq> 0" and same: "sameElements slot slot'"
  shows "(refresh slot' (refresh slot s))\<lparr>dispatched := dispatched (refresh slot s)\<rparr> = refresh slot s
         \<and> map handle (items (refresh slot' (refresh slot s))) = map handle (items (refresh slot s))
         \<and> map itemDisplay (items (refresh slot' (refresh slot s))) = map itemDisplay (items (refresh slot s))
         \<and> currentPage (refresh slot' (refresh slot s)) = currentPage (refresh slot s)
         \<and> totalPages (refresh slot' (refresh slot s)) = totalPages (refresh slot s)
         \<and> buttons (refresh slot' (refresh slot s)) = buttons (refresh slot s)
         \<and> prevDisabled (refresh slot' (refresh slot s)) = prevDisabled (refresh slot s)
         \<and> nextDisabled (refresh slot' (refresh slot s)) = nextDisabled (refresh slot s)
         \<and> controlsDisplay (refresh slot' (refresh slot s)) = controlsDisplay (refresh slot s)"
proof -
  let ?c = "prepared slot s"
  let ?r = "refresh slot s"
  have handles: "map handle (chosenItems slot') = map handle (chosenItems slot)"
    using chosenItems_same [OF same] by simp
  have len: "length (chosenItems slot') = length (chosenItems slot)"
    using handles by (metis length_map)
  have main: "(refresh slot' ?r)\<lparr>dispatched := dispatched ?r\<rparr> = ?r"
  proof (cases "throwsOnDisplay ?c")
    case True
    then have r: "?r = ?c\<lparr>items := map (\<lambda>it. it\<lparr>itemDisplay := ''none''\<rparr>) (chosenItems slot)\<rparr>"
      by (simp add: refresh_eq [of slot s] Let_def prepared_fields)
    have rf: "currentPage ?r = currentPage ?c" "totalPages ?r = totalPages ?c"
      "itemsPerPage ?r = itemsPerPage s" "innerWidth ?r = innerWidth s"
      "items ?r = map (\<lambda>it. it\<lparr>itemDisplay := ''none''\<rparr>) (chosenItems slot)"
      "buttons ?r = freshButtons ?c"
      by (simp_all add: r prepared_fields prepared_buttons [symmetric])
    let ?c' = "?r\<lparr>items := chosenItems slot', buttons := freshButtons ?c\<rparr>"
    have p: "prepared slot' ?r = ?c'"
      by (rule prepared_again [OF same]) (simp_all only: rf)
    have "throwsOnDisplay ?c' = throwsOnDisplay ?c"
      by (rule throwsOnDisplay_cong) (simp_all add: rf len prepared_fields)
    with True have "throwsOnDisplay (prepared slot' ?r)"
      by (simp add: p)
    then have "refresh slot' ?r =
        (prepared slot' ?r)\<lparr>items := map (\<lambda>it. it\<lparr>itemDisplay := ''none''\<rparr>) (items (prepared slot' ?r))\<rparr>"
      by (simp add: refresh_eq [of slot' ?r] Let_def)
    also have "\<dots> = ?r\<lparr>items := map (\<lambda>it. it\<lparr>itemDisplay := ''none''\<rparr>) (chosenItems slot),
                         buttons := freshButtons ?c\<rparr>"
      unfolding p using hidden_same [OF handles] by simp
    also have "\<dots> = ?r"
      unfolding rf(5,6) [symmetric] by simp
    finally show ?thesis by simp
  next
    case False
    let ?X = "if totalPages ?c > 1 then ''flex'' else ''none''"
    have r: "?r = (rendered ?c)\<lparr>dispatched := dispatched s @ [detailOf ?c], controlsDisplay := ?X\<rparr>"
      using False by (simp add: refresh_eq [of slot s] Let_def prepared_fields)
    have rf: "currentPage ?r = currentPage ?c" "totalPages ?r = totalPages ?c"
      "itemsPerPage ?r = itemsPerPage s" "innerWidth ?r = innerWidth s"
      "items ?r = pageItems (startIndexOf ?c) (endIndexOf ?c) (chosenItems slot)"
      "prevDisabled ?r = (currentPage ?c = 1)"
      "nextDisabled ?r = (currentPage ?c = rat_of_int (totalPages ?c))"
      "buttons ?r = freshButtons ?c"
      "controlsDisplay ?r = ?X"
      by (simp_all add: r rendered_def viewButtons_fresh [OF prepared_buttons]
          prepared_buttons [symmetric] prepared_fields)
    let ?c' = "?r\<lparr>items := chosenItems slot', buttons := freshButtons ?c\<rparr>"
    have p: "prepared slot' ?r = ?c'"
      by (rule prepared_again [OF same]) (simp_all only: rf)
    have c': "currentPage ?c' = currentPage ?c" "totalPages ?c' = totalPages ?c"
      "itemsPerPage ?c' = itemsPerPage ?c" "innerWidth ?c' = innerWidth ?c"
      "items ?c' = chosenItems slot'" "buttons ?c' = freshButtons ?c"
      "dispatched ?c' = dispatched ?r"
      by (simp_all add: rf prepared_fields)
    have "throwsOnDisplay ?c' = throwsOnDisplay ?c"
      by (rule throwsOnDisplay_cong) (simp_all add: rf len prepared_fields)
    with False have "\<not> throwsOnDisplay (prepared slot' ?r)"
      by (simp add: p)
    then have r': "refresh slot' ?r =
        (rendered (prepared slot' ?r))\<lparr>dispatched := dispatched (prepared slot' ?r) @ [detailOf (prepared slot' ?r)],
           controlsDisplay := (if totalPages (prepared slot' ?r) > 1 then ''flex'' else ''none'')\<rparr>"
      by (simp add: refresh_eq [of slot' ?r] Let_def)
    have idx: "startIndexOf ?c' = startIndexOf ?c" "endIndexOf ?c' = endIndexOf ?c"
      by (simp_all add: startIndexOf_def endIndexOf_def rf prepared_fields)
    have fb: "freshButtons ?c' = freshButtons ?c"
      by (rule freshButtons_cong) (simp_all add: rf prepared_fields)
    have vb: "viewButtons ?c' = freshButtons ?c"
      using viewButtons_fresh [of ?c'] fb by simp
    have "rendered ?c' =
            ?c'\<lparr>items := pageItems (startIndexOf ?c) (endIndexOf ?c) (chosenItems slot),
                 prevDisabled := (currentPage ?c = 1),
                 nextDisabled := (currentPage ?c = rat_of_int (totalPages ?c)),
                 buttons := freshButtons ?c\<rparr>"
      unfolding rendered_def idx vb c'(1,2,5) pageItems_same [OF handles] ..
    also have "\<dots> = ?c'\<lparr>items := items ?r, prevDisabled := prevDisabled ?r,
                          nextDisabled := nextDisabled ?r, buttons := buttons ?r\<rparr>"
      by (simp only: rf(5,6,7,8))
    also have "\<dots> = ?r"
      by simp
    finally have rend: "rendered ?c' = ?r" .
    have X: "(if totalPages ?c' > 1 then ''flex'' else ''none'') = controlsDisplay ?r"
      by (simp only: c'(2) rf(9))
    show ?thesis
      unfolding r' p rend X by simp
  qed
  have "items (refresh slot' ?r) = items ?r"
    using arg_cong [OF main, of items] by simp
  moreover have "currentPage (refresh slot' ?r) = currentPage ?r"
    using arg_cong [OF main, of currentPage] by simp
  moreover have "totalPages (refresh slot' ?r) = totalPages ?r"
    using arg_cong [OF main, of totalPages] by simp
  moreover have "buttons (refresh slot' ?r) = buttons ?r"
    using arg_cong [OF main, of buttons] by simp
  moreover have "prevDisabled (refresh slot' ?r) = prevDisabled ?r"
    using arg_cong [OF main, of prevDisabled] by simp
  moreover have "nextDisabled (refresh slot' ?r) = nextDisabled ?r"
    using arg_cong [OF main, of nextDisabled] by simp
  moreover have "controlsDisplay (refresh slot' ?r) = controlsDisplay ?r"
    using arg_cong [OF main, of controlsDisplay] by simp
  ultimately show ?thesis
    using main by simp
qed

theorem refresh_idempotent_witness:
  "(refresh (Some (items scenarioState, [])) scenarioState)\<lparr>dispatched := dispatched scenarioState\<rparr>
     = scenarioState
   \<and> (refresh (Some (tenItems, [])) scenarioState)\<lparr>dispatched := dispatched scenarioState\<rparr>
     = scenarioState"
proof -
  have h1: "itemsPerPage (constructor 1024) \<noteq> 0"
    by (simp add: constructor_def)
  have h2: "sameElements (Some (tenItems, []))
              (Some (items (refresh (Some (tenItems, [])) (constructor 1024)), []))"
    by code_simp
  have h3: "sameElements (Some (tenItems, [])) (Some (tenItems, []))"
    by (simp add: sameElements_def)
  show ?thesis
    using refresh_idempotent [OF h1 h2] refresh_idempotent [OF h1 h3]
    by (simp add: scenarioState_def)
qed

subsection \<open>Resize\<close>

text \<open>
  C9: the resize listener changes nothing but the display of the page-number buttons (and
  the width it reads): the current page, the total, the items with their visibility, the
  configuration and the dispatched events are as before, and so are the buttons' page
  numbers and active marks.
\<close>

theorem resize_changes_button_display_only:
  "resize w s =
     s\<lparr>innerWidth := w,
       buttons := map (\<lambda>b. b\<lparr>btnDisplay :=
                          (if shouldShowPageNumber s (page b) (if w < 768 then 3 else 5)
                           then [] else ''none'')\<rparr>) (buttons s)\<rparr>
   \<and> currentPage (resize w s) = currentPage s
   \<and> totalPages (resize w s) = totalPages s
   \<and> items (resize w s) = items s
   \<and> itemsPerPage (resize w s) = itemsPerPage s
   \<and> prevText (resize w s) = prevText s
   \<and> nextText (resize w s) = nextText s
   \<and> dispatched (resize w s) = dispatched s
   \<and> map page (buttons (resize w s)) = map page (buttons s)
   \<and> map active (buttons (resize w s)) = map active (buttons s)"
  by (simp add: resize_def updatePaginationVisibility_def shouldShowPageNumber_def Let_def comp_def)

subsection \<open>Sequences of transitions\<close>

text \<open>No transition stores \<open>0\<close> in \<open>itemsPerPage\<close>.\<close>

lemma updateDisplay_cases:
  obtains (thrown) "throwsOnDisplay s" and
      "updateDisplay s = Thrown TypeError (s\<lparr>items := map (\<lambda>it. it\<lparr>itemDisplay := ''none''\<rparr>) (items s)\<rparr>)"
    | (completed) "\<not> throwsOnDisplay s" and
      "updateDisplay s = Done ((rendered s)\<lparr>dispatched := dispatched s @ [detailOf s]\<rparr>)"
  using updateDisplay_thrown [of s] updateDisplay_done [of s] by blast

lemma updateDisplay_frame:
  "itemsPerPage (stateOf (updateDisplay s)) = itemsPerPage s"
  "currentPage (stateOf (updateDisplay s)) = currentPage s"
  "totalPages (stateOf (updateDisplay s)) = totalPages s"
  "map page (buttons (stateOf (updateDisplay s))) = map page (buttons s)"
  by (cases s rule: updateDisplay_cases; simp add: rendered_def viewButtons_def comp_def)+

lemma updatePagination_itemsPerPage:
  "itemsPerPage (stateOf (updatePagination s)) = itemsPerPage s"
proof -
  have "itemsPerPage (stateOf (updatePagination s))
          = itemsPerPage (stateOf (updateDisplay (createPageNumbers (calculateTotalPages s))))"
    by (cases "updateDisplay (createPageNumbers (calculateTotalPages s))")
       (simp_all add: updatePagination_def)
  then show ?thesis
    by (simp add: updateDisplay_frame createPageNumbers_eq calculateTotalPages_eq)
qed

lemma orNumber_nonzero: "d \<noteq> 0 \<Longrightarrow> orNumber v d \<noteq> 0"
  by (simp add: orNumber_def split: option.splits)

lemma step_itemsPerPage_nonzero:
  assumes "itemsPerPage s \<noteq> 0"
  shows "itemsPerPage (step t s) \<noteq> 0"
proof (cases t)
  case (Reconfigure name oldValue newValue)
  let ?s1 = "if name = ''items-per-page''
             then s\<lparr>itemsPerPage := orNumber (parseInt (toString newValue)) 3\<rparr>
             else if name = ''prev-text'' then s\<lparr>prevText := orString newValue ''Prev''\<rparr>
             else if name = ''next-text'' then s\<lparr>nextText := orString newValue ''Next''\<rparr>
             else s"
  have s1: "itemsPerPage ?s1 \<noteq> 0"
    using assms orNumber_nonzero [of 3 "parseInt (toString newValue)"] by simp
  have "itemsPerPage (stateOf (attributeChangedCallback name oldValue newValue s))
          = (if oldValue \<noteq> newValue then itemsPerPage (stateOf (updatePagination ?s1))
             else itemsPerPage s)"
    by (cases "updatePagination ?s1")
       (simp_all add: attributeChangedCallback_def Let_def updateButtonText_def)
  then show ?thesis
    using s1 assms Reconfigure by (simp add: updatePagination_itemsPerPage)
next
  case (Refresh slot)
  have "itemsPerPage (refresh slot s) = itemsPerPage s"
    by (simp add: refresh_def initializePagination_def Let_def updatePagination_itemsPerPage
        calculateTotalPages_eq split: option.splits prod.splits)
  then show ?thesis using assms Refresh by simp
next
  case (NavigateTo p)
  then show ?thesis using assms by (simp add: goToPage_def updateDisplay_frame)
next
  case NavigatePrev
  then show ?thesis using assms by (simp add: prevClick_def updateDisplay_frame)
next
  case NavigateNext
  then show ?thesis using assms by (simp add: nextClick_def updateDisplay_frame)
next
  case (PageClick n)
  then show ?thesis using assms by (simp add: numbersClick_def updateDisplay_frame)
next
  case (ResizeSignal w)
  then show ?thesis using assms by (simp add: resize_def updatePaginationVisibility_def Let_def)
qed

lemma run_itemsPerPage_nonzero:
  "itemsPerPage s \<noteq> 0 \<Longrightarrow> itemsPerPage (run ts s) \<noteq> 0"
  by (induction ts arbitrary: s) (simp_all add: step_itemsPerPage_nonzero)

lemma itemsPerPage_never_zero: "itemsPerPage (run ts (constructor w)) \<noteq> 0"
  by (rule run_itemsPerPage_nonzero) (simp add: constructor_def)

text \<open>
  From a state with \<open>itemsPerPage \<ge> 1\<close> and an integral current page in range,
  \<open>updateDisplay\<close> completes, every benign transition keeps the state so, and a refresh
  dispatches exactly one event.
\<close>

lemma wellFormed_no_throw:
  assumes "rat_of_int \<lfloor>currentPage s\<rfloor> = currentPage s" and "1 \<le> currentPage s"
  shows "\<not> throwsOnDisplay s"
proof -
  have "1 \<le> \<lfloor>currentPage s\<rfloor>" using assms(2) by simp
  then have "\<not> throwsOnDisplay (s\<lparr>currentPage := rat_of_int \<lfloor>currentPage s\<rfloor>\<rparr>)"
    by (rule integer_page_no_throw)
  then show ?thesis by (simp only: assms(1)) simp
qed

lemma pagesFor_positive: "1 \<le> perPage \<Longrightarrow> 1 \<le> pagesFor count perPage"
proof -
  assume "1 \<le> perPage"
  define c where "c = \<lceil>rat_of_nat count / rat_of_int perPage\<rceil>"
  have "0 \<le> rat_of_nat count / rat_of_int perPage"
    using \<open>1 \<le> perPage\<close> by simp
  then have "0 \<le> c"
    unfolding c_def by (simp add: zero_le_ceiling)
  then have "1 \<le> (if c = 0 then 1 else c)" by simp
  then show ?thesis
    unfolding pagesFor_def Let_def c_def .
qed

lemma clampDown_integer:
  "rat_of_int \<lfloor>cp\<rfloor> = cp \<Longrightarrow> rat_of_int \<lfloor>clampDown cp T\<rfloor> = clampDown cp T"
  by (simp add: clampDown_def)

lemma clampDown_range:
  "1 \<le> cp \<Longrightarrow> 1 \<le> T \<Longrightarrow> 1 \<le> clampDown cp T \<and> clampDown cp T \<le> rat_of_int T"
  by (simp add: clampDown_def)

lemma freshButtons_pages:
  "list_all (\<lambda>b. 1 \<le> page b \<and> page b \<le> totalPages s) (freshButtons s)"
  by (simp add: freshButtons_def list_all_iff)

lemma viewButtons_pages:
  "list_all (\<lambda>b. 1 \<le> page b \<and> page b \<le> T) (viewButtons s)
     = list_all (\<lambda>b. 1 \<le> page b \<and> page b \<le> T) (buttons s)"
  by (simp add: viewButtons_def list_all_iff)

lemma wellFormed_updateDisplay:
  assumes "wellFormed s"
  shows "\<not> isThrown (updateDisplay s) \<and> wellFormed (stateOf (updateDisplay s))
         \<and> dispatched (stateOf (updateDisplay s)) = dispatched s @ [detailOf s]"
proof -
  have "\<not> throwsOnDisplay s"
    using assms by (intro wellFormed_no_throw) (simp_all add: wellFormed_def)
  then have "updateDisplay s = Done ((rendered s)\<lparr>dispatched := dispatched s @ [detailOf s]\<rparr>)"
    by (rule updateDisplay_done)
  then show ?thesis
    using assms by (simp add: wellFormed_def rendered_def viewButtons_pages)
qed

lemma wellFormed_updatePagination:
  assumes "1 \<le> itemsPerPage s" and "rat_of_int \<lfloor>currentPage s\<rfloor> = currentPage s"
    and "1 \<le> currentPage s"
  shows "\<not> isThrown (updatePagination s) \<and> wellFormed (stateOf (updatePagination s))
         \<and> length (dispatched (stateOf (updatePagination s))) = Suc (length (dispatched s))"
proof -
  let ?c = "createPageNumbers (calculateTotalPages s)"
  let ?T = "pagesFor (length (items s)) (itemsPerPage s)"
  have c: "?c = (calculateTotalPages s)\<lparr>buttons := freshButtons (calculateTotalPages s)\<rparr>"
    by (rule createPageNumbers_eq)
  have T: "1 \<le> ?T" using assms(1) by (rule pagesFor_positive)
  have fb: "freshButtons ?c = freshButtons (calculateTotalPages s)"
    unfolding c by (rule freshButtons_cong) simp_all
  have "list_all (\<lambda>b. 1 \<le> page b \<and> page b \<le> totalPages ?c) (freshButtons ?c)"
    by (rule freshButtons_pages)
  then have "list_all (\<lambda>b. 1 \<le> page b \<and> page b \<le> totalPages ?c) (buttons ?c)"
    unfolding fb by (simp add: c)
  moreover have "itemsPerPage ?c = itemsPerPage s" "currentPage ?c = clampDown (currentPage s) ?T"
    "totalPages ?c = ?T" "dispatched ?c = dispatched s"
    by (simp_all add: createPageNumbers_eq calculateTotalPages_eq)
  ultimately have wf: "wellFormed ?c"
    using assms clampDown_integer [OF assms(2), of ?T] clampDown_range [OF assms(3) T]
    by (simp add: wellFormed_def)
  from wellFormed_updateDisplay [OF wf]
  obtain r where r: "updateDisplay ?c = Done r" "wellFormed r"
    "dispatched r = dispatched ?c @ [detailOf ?c]"
    by (cases "updateDisplay ?c") simp_all
  have "updatePagination s =
          Done (r\<lparr>controlsDisplay := (if totalPages r > 1 then ''flex'' else ''none'')\<rparr>)"
    by (simp add: updatePagination_def r(1))
  then show ?thesis
    using r(2,3) \<open>dispatched ?c = dispatched s\<close> by (simp add: wellFormed_def)
qed

lemma wellFormed_refresh:
  assumes "1 \<le> itemsPerPage s" and "rat_of_int \<lfloor>currentPage s\<rfloor> = currentPage s"
  shows "wellFormed (refresh slot s)
         \<and> length (dispatched (refresh slot s)) = Suc (length (dispatched s))"
proof -
  let ?s1 = "s\<lparr>items := chosenItems slot\<rparr>"
  let ?s2 = "if currentPage ?s1 < 1 then ?s1\<lparr>currentPage := 1\<rparr> else ?s1"
  let ?s3 = "calculateTotalPages ?s2"
  have init: "refresh slot s = stateOf (updatePagination ?s3)"
    by (simp add: refresh_def initializePagination_def chosenItems_def Let_def
        split: option.splits prod.splits)
  have two: "1 \<le> itemsPerPage ?s2" "rat_of_int \<lfloor>currentPage ?s2\<rfloor> = currentPage ?s2"
    "1 \<le> currentPage ?s2" "dispatched ?s2 = dispatched s"
    using assms by simp_all
  have T: "1 \<le> pagesFor (length (items ?s2)) (itemsPerPage ?s2)"
    using two(1) by (rule pagesFor_positive)
  have three: "1 \<le> itemsPerPage ?s3" "rat_of_int \<lfloor>currentPage ?s3\<rfloor> = currentPage ?s3"
    "1 \<le> currentPage ?s3" "dispatched ?s3 = dispatched s"
    using two(1,4) clampDown_integer [OF two(2)] clampDown_range [OF two(3) T]
    by (simp_all add: calculateTotalPages_eq)
  show ?thesis
    unfolding init using wellFormed_updatePagination [OF three(1,2,3)] three(4) by simp
qed

lemma refresh_dispatches_once:
  assumes "wellFormed s"
  shows "length (dispatched (refresh slot s)) = Suc (length (dispatched s))"
  using assms wellFormed_refresh [of s slot] by (simp add: wellFormed_def)

lemma wellFormed_page:
  assumes "wellFormed s" and "rat_of_int \<lfloor>p\<rfloor> = p" and "1 \<le> p" and "p \<le> rat_of_int (totalPages s)"
  shows "wellFormed (stateOf (updateDisplay (s\<lparr>currentPage := p\<rparr>)))"
proof -
  have "wellFormed (s\<lparr>currentPage := p\<rparr>)"
    using assms by (simp add: wellFormed_def)
  then show ?thesis
    using wellFormed_updateDisplay by blast
qed

lemma integer_shift:
  assumes "rat_of_int \<lfloor>x\<rfloor> = x"
  shows "rat_of_int \<lfloor>x - 1\<rfloor> = x - 1" and "rat_of_int \<lfloor>x + 1\<rfloor> = x + 1"
  using assms by simp_all

lemma integer_below:
  assumes "rat_of_int \<lfloor>x\<rfloor> = x" and "x < rat_of_int T"
  shows "x + 1 \<le> rat_of_int T"
proof -
  obtain n where n: "x = rat_of_int n" using assms(1) [symmetric] ..
  have "n < T" using assms(2) unfolding n by (simp only: of_int_less_iff)
  then have "n + 1 \<le> T" by simp
  then have "rat_of_int (n + 1) \<le> rat_of_int T" by (simp only: of_int_le_iff)
  then show ?thesis unfolding n by simp
qed

lemma integer_above:
  assumes "rat_of_int \<lfloor>x\<rfloor> = x" and "1 < x"
  shows "1 \<le> x - 1"
proof -
  obtain n where n: "x = rat_of_int n" using assms(1) [symmetric] ..
  have "rat_of_int 1 < rat_of_int n" using assms(2) unfolding n by simp
  then have "1 < n" by (simp only: of_int_less_iff)
  then have "1 \<le> n - 1" by simp
  then have "rat_of_int 1 \<le> rat_of_int (n - 1)" by (simp only: of_int_le_iff)
  then show ?thesis unfolding n by simp
qed

lemma step_wellFormed:
  assumes wf: "wellFormed s" and ok: "benign t"
  shows "wellFormed (step t s)"
proof (cases t)
  case (Reconfigure name oldValue newValue)
  show ?thesis
  proof (cases "oldValue = newValue")
    case True
    then show ?thesis using wf Reconfigure by (simp add: attributeChangedCallback_def)
  next
    case False
    let ?s1 = "if name = ''items-per-page''
               then s\<lparr>itemsPerPage := orNumber (parseInt (toString newValue)) 3\<rparr>
               else if name = ''prev-text'' then s\<lparr>prevText := orString newValue ''Prev''\<rparr>
               else if name = ''next-text'' then s\<lparr>nextText := orString newValue ''Next''\<rparr>
               else s"
    have s1: "1 \<le> itemsPerPage ?s1" "rat_of_int \<lfloor>currentPage ?s1\<rfloor> = currentPage ?s1"
      "1 \<le> currentPage ?s1"
      using wf ok Reconfigure False by (simp_all add: wellFormed_def)
    from wellFormed_updatePagination [OF s1]
    obtain r where r: "updatePagination ?s1 = Done r" "wellFormed r"
      by (cases "updatePagination ?s1") simp_all
    have "attributeChangedCallback name oldValue newValue s = Done (updateButtonText r)"
      using False r(1) by (simp add: attributeChangedCallback_def Let_def)
    then show ?thesis
      using r(2) Reconfigure by (simp add: updateButtonText_def wellFormed_def)
  qed
next
  case (Refresh slot)
  then show ?thesis
    using wf wellFormed_refresh [of s slot] by (simp add: wellFormed_def)
next
  case (NavigateTo p)
  then show ?thesis
    using wf ok wellFormed_page [of s p] by (simp add: goToPage_def)
next
  case NavigatePrev
  show ?thesis
  proof (cases "currentPage s > 1")
    case True
    have "wellFormed (stateOf (updateDisplay (s\<lparr>currentPage := currentPage s - 1\<rparr>)))"
      using wf True integer_above [of "currentPage s"]
      by (intro wellFormed_page) (simp_all add: wellFormed_def)
    then show ?thesis using True NavigatePrev by (simp add: prevClick_def)
  next
    case False
    then show ?thesis using wf NavigatePrev by (simp add: prevClick_def)
  qed
next
  case NavigateNext
  show ?thesis
  proof (cases "currentPage s < rat_of_int (totalPages s)")
    case True
    have "wellFormed (stateOf (updateDisplay (s\<lparr>currentPage := currentPage s + 1\<rparr>)))"
      using wf True integer_below [of "currentPage s" "totalPages s"]
      by (intro wellFormed_page) (simp_all add: wellFormed_def)
    then show ?thesis using True NavigateNext by (simp add: nextClick_def)
  next
    case False
    then show ?thesis using wf NavigateNext by (simp add: nextClick_def)
  qed
next
  case (PageClick n)
  show ?thesis
  proof (cases "n \<in> set (map page (buttons s))")
    case False
    then show ?thesis using wf PageClick by simp
  next
    case True
    then have "1 \<le> n \<and> n \<le> totalPages s"
      using wf by (auto simp add: wellFormed_def list_all_iff)
    then have "wellFormed (stateOf (updateDisplay (s\<lparr>currentPage := rat_of_int n\<rparr>)))"
      using wf by (intro wellFormed_page) simp_all
    then show ?thesis using True wf PageClick by (simp add: numbersClick_def)
  qed
next
  case (ResizeSignal w)
  then show ?thesis
    using wf by (simp add: resize_def updatePaginationVisibility_def Let_def wellFormed_def
        list_all_iff)
qed

lemma run_wellFormed:
  "wellFormed s \<Longrightarrow> list_all benign ts \<Longrightarrow> wellFormed (run ts s)"
  by (induction ts arbitrary: s) (simp_all add: step_wellFormed)

lemma wellFormed_constructor: "wellFormed (constructor w)"
  by (simp add: wellFormed_def constructor_def)

lemma page_in_range_unless_negative_itemsPerPage:
  assumes "list_all benign ts"
  shows "currentPage (run ts (constructor w)) \<in> \<int>
         \<and> 1 \<le> currentPage (run ts (constructor w))
         \<and> currentPage (run ts (constructor w)) \<le> rat_of_int (totalPages (run ts (constructor w)))"
proof -
  have "wellFormed (run ts (constructor w))"
    using wellFormed_constructor assms by (rule run_wellFormed)
  then show ?thesis
    by (auto simp add: wellFormed_def Ints_def)
qed

text \<open>What a changed \<open>items-per-page\<close> attribute stores: only \<open>NaN\<close> and \<open>0\<close> become 3.\<close>

lemma attributeChangedCallback_itemsPerPage:
  assumes "oldValue \<noteq> newValue"
  shows "itemsPerPage (stateOf (attributeChangedCallback ''items-per-page'' oldValue newValue s)) =
           (case parseInt (toString newValue) of
              None \<Rightarrow> 3
            | Some n \<Rightarrow> if n = 0 then 3 else n)"
proof -
  let ?s1 = "s\<lparr>itemsPerPage := orNumber (parseInt (toString newValue)) 3\<rparr>"
  have "itemsPerPage (stateOf (attributeChangedCallback ''items-per-page'' oldValue newValue s))
          = itemsPerPage (stateOf (updatePagination ?s1))"
    using assms by (cases "updatePagination ?s1")
       (simp_all add: attributeChangedCallback_def Let_def updateButtonText_def)
  then show ?thesis
    by (simp add: updatePagination_itemsPerPage orNumber_def)
qed

subsection \<open>Where the code departs from its documentation\<close>

text \<open>
  C1: the claim is that a refresh and an attribute change dispatch no \<open>pagechange\<close> event.
  Both run \<open>updatePagination\<close>, whose \<open>updateDisplay\<close> always dispatches: the first refresh on
  ten items dispatches an event for page 1, and changing \<open>prev-text\<close> afterwards dispatches
  another.
\<close>

theorem refresh_and_reconfigure_dispatch:
  "dispatched (refresh (Some (tenItems, [])) (constructor 1024)) =
     [\<lparr>d_currentPage = 1, d_totalPages = 4, d_itemsPerPage = 3,
       d_startIndex = 0, d_endIndex = 3\<rparr>]
   \<and> dispatched (stateOf (attributeChangedCallback ''prev-text'' None (Some ''Back'')
        scenarioState)) =
       dispatched scenarioState @
         [\<lparr>d_currentPage = 1, d_totalPages = 4, d_itemsPerPage = 3,
           d_startIndex = 0, d_endIndex = 3\<rparr>]"
  by code_simp

text \<open>
  C2: the claim is that \<open>itemsPerPage\<close> is at least 1 after every change of the
  \<open>items-per-page\<close> attribute. \<open>parseInt(newValue) || 3\<close> replaces only \<open>NaN\<close> and \<open>0\<close>: the value
  "-5" is stored as \<open>-5\<close>.
\<close>

theorem attributeChangedCallback_keeps_negative:
  "parseInt ''-5'' = Some (- 5)
   \<and> \<not> isThrown (attributeChangedCallback ''items-per-page'' None (Some ''-5'')
          scenarioState)
   \<and> itemsPerPage (stateOf (attributeChangedCallback ''items-per-page'' None (Some ''-5'')
        scenarioState)) = - 5"
  by code_simp

text \<open>
  C3: the claim is that \<open>1 \<le> currentPage \<le> totalPages\<close> after every transition. With ten
  items, the attribute value "-5" makes \<open>totalPages\<close> \<open>\<lceil>10 / -5\<rceil> = -2\<close> and clamps
  \<open>currentPage\<close> down to it. Without such a value (and with integer page numbers) the range
  holds along every sequence of transitions: \<open>page_in_range_unless_negative_itemsPerPage\<close>.
\<close>

theorem reconfigure_negative_breaks_page_range:
  "currentPage scenarioState = 1
   \<and> totalPages scenarioState = 4
   \<and> currentPage (stateOf (attributeChangedCallback ''items-per-page'' None (Some ''-5'')
        scenarioState)) = - 2
   \<and> totalPages (stateOf (attributeChangedCallback ''items-per-page'' None (Some ''-5'')
        scenarioState)) = - 2"
  by code_simp

end
